theory Spec2Isabelle
  imports Main
begin

section \<open>Python primitives used by the notebook\<close>

text \<open>
  The notebook \<^verbatim>\<open>text-extraction-with-BERT.ipynb\<close> is Python. The only operation of
  \<^verbatim>\<open>SquadExample.preprocess\<close> that can raise is the indexed store
  \<^verbatim>\<open>is_char_in_ans[idx] = 1\<close>, so the error type has one value.
\<close>

datatype py_error = IndexError

text \<open>
  Python strings are modelled as \<^typ>\<open>string\<close>, one \<^typ>\<open>char\<close> per code point (code
  points below 256). \<^verbatim>\<open>str.split()\<close> without arguments splits at runs of whitespace
  and yields no empty word; the code points below 256 for which \<^verbatim>\<open>str.isspace\<close> holds
  are 9 to 13, 28 to 32, 133 and 160.
\<close>

definition py_isspace :: "char \<Rightarrow> bool" where
  "py_isspace c =
     (c \<in> set [CHR 0x09, CHR 0x0A, CHR 0x0B, CHR 0x0C, CHR 0x0D, CHR 0x1C, CHR 0x1D,
               CHR 0x1E, CHR 0x1F, CHR 0x20, CHR 0x85, CHR 0xA0])"

text \<open>\<open>py_split_from w s\<close>: the words of \<open>s\<close>, where \<open>w\<close> is the word read so far.\<close>

fun py_split_from :: "string \<Rightarrow> string \<Rightarrow> string list" where
  "py_split_from w [] = (if w = [] then [] else [w])"
| "py_split_from w (c # cs) =
     (if py_isspace c
      then (if w = [] then py_split_from [] cs else w # py_split_from [] cs)
      else py_split_from (w @ [c]) cs)"

definition py_split :: "string \<Rightarrow> string list" where
  "py_split s = py_split_from [] s"

fun py_join :: "string \<Rightarrow> string list \<Rightarrow> string" where
  "py_join sep [] = []"
| "py_join sep [w] = w"
| "py_join sep (w # ws) = w @ sep @ py_join sep ws"

text \<open>\<^verbatim>\<open>" ".join(str(s).split())\<close>, the cleaning applied to context, question and answer.\<close>

definition clean :: "string \<Rightarrow> string" where
  "clean s = py_join '' '' (py_split s)"

text \<open>
  \<^verbatim>\<open>xs[i] = v\<close>: a negative index counts from the end of the list, and an index outside
  \<open>[-len(xs), len(xs))\<close> raises IndexError.
\<close>

definition py_setitem :: "'a list \<Rightarrow> int \<Rightarrow> 'a \<Rightarrow> py_error + 'a list" where
  "py_setitem xs i v =
     (let n = int (length xs); j = (if i < 0 then i + n else i)
      in if 0 \<le> j \<and> j < n then Inr (xs[nat j := v]) else Inl IndexError)"

text \<open>\<^verbatim>\<open>range(a, b)\<close> as the list of its values.\<close>

definition py_range :: "int \<Rightarrow> int \<Rightarrow> int list" where
  "py_range a b = [a..b - 1]"

text \<open>
  \<^verbatim>\<open>xs[s:e]\<close> for bounds that are not negative: the bounds are clamped to the length of
  the list, and the slice is empty when \<open>e \<le> s\<close>.
\<close>

definition py_slice :: "'a list \<Rightarrow> nat \<Rightarrow> nat \<Rightarrow> 'a list" where
  "py_slice xs s e = take (e - s) (drop s xs)"

section \<open>The data model\<close>

text \<open>
  The result of \<^verbatim>\<open>tokenizer.encode\<close>: the fields \<^verbatim>\<open>ids\<close> and \<^verbatim>\<open>offsets\<close> of an
  \<^verbatim>\<open>Encoding\<close> of the \<^verbatim>\<open>tokenizers\<close> library. Token ids and character offsets are
  unsigned there, hence \<^typ>\<open>nat\<close>.
\<close>

record encoding =
  ids :: "nat list"
  offsets :: "(nat \<times> nat) list"

text \<open>
  A \<^verbatim>\<open>SquadExample\<close> object. The attributes set by \<^verbatim>\<open>__init__\<close> are plain fields (the
  attribute \<^verbatim>\<open>context\<close> is the field \<open>context_text\<close>); an attribute that only
  \<^verbatim>\<open>preprocess\<close> assigns is \<open>None\<close> as long as the object does not have it.
\<close>

record example =
  question :: string
  context_text :: string
  start_char_idx :: int
  answer_text :: string
  all_answers :: "string list"
  skip :: bool
  input_ids :: "nat list option"
  token_type_ids :: "nat list option"
  attention_mask :: "nat list option"
  start_token_idx :: "nat option"
  end_token_idx :: "nat option"
  context_token_to_char :: "(nat \<times> nat) list option"

text \<open>\<^verbatim>\<open>SquadExample.__init__(question, context, start_char_idx, answer_text, all_answers)\<close>\<close>

definition SquadExample :: "string \<Rightarrow> string \<Rightarrow> int \<Rightarrow> string \<Rightarrow> string list \<Rightarrow> example" where
  "SquadExample q c s a al =
     \<lparr>question = q, context_text = c, start_char_idx = s, answer_text = a, all_answers = al,
      skip = False, input_ids = None, token_type_ids = None, attention_mask = None,
      start_token_idx = None, end_token_idx = None, context_token_to_char = None\<rparr>"

section \<open>SquadExample.preprocess\<close>

text \<open>
  \<^verbatim>\<open>for idx in range(start_char_idx, end_char_idx): is_char_in_ans[idx] = 1\<close>,
  stopping at the first store that raises.
\<close>

fun mark_chars :: "nat list \<Rightarrow> int list \<Rightarrow> py_error + nat list" where
  "mark_chars is_char_in_ans [] = Inr is_char_in_ans"
| "mark_chars is_char_in_ans (idx # rest) =
     (case py_setitem is_char_in_ans idx 1 of
        Inl e \<Rightarrow> Inl e
      | Inr marked \<Rightarrow> mark_chars marked rest)"

text \<open>The six assignments to \<^verbatim>\<open>self\<close> that end the body of the token loop.\<close>

definition assign_fields ::
  "example \<Rightarrow> nat list \<Rightarrow> nat list \<Rightarrow> nat list \<Rightarrow> nat \<Rightarrow> nat \<Rightarrow> (nat \<times> nat) list \<Rightarrow> example" where
  "assign_fields self inp tti am st en offs =
     self\<lparr>input_ids := Some inp, token_type_ids := Some tti, attention_mask := Some am,
          start_token_idx := Some st, end_token_idx := Some en,
          context_token_to_char := Some offs\<rparr>"

text \<open>
  The loop \<^verbatim>\<open>for idx, (start, end) in enumerate(tokenized_context.offsets)\<close>. In the
  notebook everything from the test \<^verbatim>\<open>len(ans_token_idx) == 0\<close> down to the assignments
  to \<^verbatim>\<open>self\<close> is indented into the loop body, so it runs once per token, and both
  \<^verbatim>\<open>return\<close> statements leave the loop and the method.

  \<open>loop_body\<close> is one pass through the body. Its arguments are the two globals
  (\<open>tokenizer\<close>, \<open>max_len\<close>), the locals the body reads, the index and the offset pair
  of the token, and the two pieces of state the body changes (\<open>ans_token_idx\<close> and
  \<open>self\<close>). It yields \<open>Return\<close> with the object when the pass ends in \<^verbatim>\<open>return\<close>, and
  \<open>Continue\<close> with the new state when the pass reaches the end of the body.
\<close>

datatype flow = Return example | Continue "nat list" example

definition loop_body ::
  "(string \<Rightarrow> encoding) \<Rightarrow> int \<Rightarrow> string \<Rightarrow> nat list \<Rightarrow> encoding \<Rightarrow>
   nat \<Rightarrow> nat \<times> nat \<Rightarrow> nat list \<Rightarrow> example \<Rightarrow> flow" where
  "loop_body tokenizer max_len question' is_char_in_ans tokenized_context idx span
     ans_token_idx self =
     (let start = fst span; en = snd span;
          ans_token_idx =
            (if sum_list (py_slice is_char_in_ans start en) > 0
             then ans_token_idx @ [idx] else ans_token_idx)
      in if length ans_token_idx = 0 then Return (self\<lparr>skip := True\<rparr>)
         else
           let start_token_idx = hd ans_token_idx;
               end_token_idx = last ans_token_idx;
               tokenized_question = tokenizer question';
               input_ids = ids tokenized_context @ drop 1 (ids tokenized_question);
               token_type_ids =
                 replicate (length (ids tokenized_context)) 0
                 @ replicate (length (drop 1 (ids tokenized_question))) 1;
               attention_mask = replicate (length input_ids) 1;
               padding_length = max_len - int (length input_ids)
           in if padding_length > 0
              then Continue ans_token_idx
                     (assign_fields self
                        (input_ids @ replicate (nat padding_length) 0)
                        (token_type_ids @ replicate (nat padding_length) 0)
                        (attention_mask @ replicate (nat padding_length) 0)
                        start_token_idx end_token_idx (offsets tokenized_context))
              else if padding_length < 0 then Return (self\<lparr>skip := True\<rparr>)
              else Continue ans_token_idx
                     (assign_fields self input_ids token_type_ids attention_mask
                        start_token_idx end_token_idx (offsets tokenized_context)))"

text \<open>
  The loop itself: \<open>body\<close> is \<open>loop_body\<close> applied to everything that stays the same
  from pass to pass, \<open>idx\<close> counts the tokens as \<^verbatim>\<open>enumerate\<close> does. When the offsets are
  used up the method ends, and \<^verbatim>\<open>self\<close> is as the last pass left it.
\<close>

fun token_loop ::
  "(nat \<Rightarrow> nat \<times> nat \<Rightarrow> nat list \<Rightarrow> example \<Rightarrow> flow) \<Rightarrow>
   nat \<Rightarrow> (nat \<times> nat) list \<Rightarrow> nat list \<Rightarrow> example \<Rightarrow> example" where
  "token_loop body idx [] ans_token_idx self = self"
| "token_loop body idx (span # rest) ans_token_idx self =
     (case body idx span ans_token_idx self of
        Return self' \<Rightarrow> self'
      | Continue ans_token_idx' self' \<Rightarrow> token_loop body (idx + 1) rest ans_token_idx' self')"

text \<open>
  \<^verbatim>\<open>SquadExample.preprocess\<close>, with the globals \<^verbatim>\<open>tokenizer\<close> and \<^verbatim>\<open>max_len\<close> of the
  notebook as arguments. The result is the object after the call, or the exception.
\<close>

definition preprocess :: "(string \<Rightarrow> encoding) \<Rightarrow> int \<Rightarrow> example \<Rightarrow> py_error + example" where
  "preprocess tokenizer max_len self =
     (let context = clean (context_text self);
          question = clean (question self);
          answer = clean (answer_text self);
          end_char_idx = start_char_idx self + int (length answer)
      in if end_char_idx \<ge> int (length context) then Inr (self\<lparr>skip := True\<rparr>)
         else
           case mark_chars (replicate (length context) 0)
                  (py_range (start_char_idx self) end_char_idx) of
             Inl e \<Rightarrow> Inl e
           | Inr is_char_in_ans \<Rightarrow>
               let tokenized_context = tokenizer context
               in Inr (token_loop
                         (loop_body tokenizer max_len question is_char_in_ans tokenized_context)
                         0 (offsets tokenized_context) [] self))"

text \<open>The value of the global \<^verbatim>\<open>max_len\<close> in the notebook.\<close>

definition notebook_max_len :: int where
  "notebook_max_len = 384"

section \<open>Notions the claims are stated with\<close>

text \<open>
  The character interval of the answer is \<open>[a, b)\<close> with \<open>a = start_char_idx\<close> and
  \<open>b = end_char_idx\<close>. A token with offset pair \<open>(s, e)\<close> overlaps it when some character
  position lies in \<open>[s, e)\<close> and in \<open>[a, b)\<close>, that is, when the larger of the two lower
  bounds is below the smaller of the two upper bounds.
\<close>

definition span_overlaps :: "nat \<times> nat \<Rightarrow> int \<Rightarrow> int \<Rightarrow> bool" where
  "span_overlaps span a b = (max (int (fst span)) a < min (int (snd span)) b)"

text \<open>The indices of the tokens that overlap \<open>[a, b)\<close>, in order.\<close>

definition answer_tokens :: "(nat \<times> nat) list \<Rightarrow> int \<Rightarrow> int \<Rightarrow> nat list" where
  "answer_tokens offs a b = filter (\<lambda>i. span_overlaps (offs ! i) a b) [0..<length offs]"

text \<open>
  What the loop tests instead: the slice of the character marks cut out by the offset pair
  has a mark in it.
\<close>

definition marked :: "nat list \<Rightarrow> nat \<times> nat \<Rightarrow> bool" where
  "marked is_char_in_ans span = (sum_list (py_slice is_char_in_ans (fst span) (snd span)) > 0)"

text \<open>
  \<open>hits p idx offs\<close>: the indices, counted from \<open>idx\<close>, of the offset pairs that satisfy
  \<open>p\<close>. This is the value of \<^verbatim>\<open>ans_token_idx\<close> after a loop that is never left early.
\<close>

fun hits :: "(nat \<times> nat \<Rightarrow> bool) \<Rightarrow> nat \<Rightarrow> (nat \<times> nat) list \<Rightarrow> nat list" where
  "hits p idx [] = []"
| "hits p idx (span # rest) = (if p span then idx # hits p (idx + 1) rest else hits p (idx + 1) rest)"

text \<open>
  The cleaned context and question of an example, their encodings, and the three input
  sequences before padding, as lines 164 to 168 of the notebook build them.
\<close>

definition tokenized_context :: "(string \<Rightarrow> encoding) \<Rightarrow> example \<Rightarrow> encoding" where
  "tokenized_context tokenizer ex = tokenizer (clean (context_text ex))"

definition tokenized_question :: "(string \<Rightarrow> encoding) \<Rightarrow> example \<Rightarrow> encoding" where
  "tokenized_question tokenizer ex = tokenizer (clean (question ex))"

definition unpadded_input_ids :: "(string \<Rightarrow> encoding) \<Rightarrow> example \<Rightarrow> nat list" where
  "unpadded_input_ids tokenizer ex =
     ids (tokenized_context tokenizer ex) @ drop 1 (ids (tokenized_question tokenizer ex))"

definition unpadded_token_type_ids :: "(string \<Rightarrow> encoding) \<Rightarrow> example \<Rightarrow> nat list" where
  "unpadded_token_type_ids tokenizer ex =
     replicate (length (ids (tokenized_context tokenizer ex))) 0
     @ replicate (length (drop 1 (ids (tokenized_question tokenizer ex)))) 1"

definition unpadded_attention_mask :: "(string \<Rightarrow> encoding) \<Rightarrow> example \<Rightarrow> nat list" where
  "unpadded_attention_mask tokenizer ex = replicate (length (unpadded_input_ids tokenizer ex)) 1"

text \<open>\<^verbatim>\<open>end_char_idx\<close> of an example.\<close>

definition end_char_idx :: "example \<Rightarrow> int" where
  "end_char_idx ex = start_char_idx ex + int (length (clean (answer_text ex)))"

text \<open>Zeros appended up to the length \<open>max_len\<close>; nothing is appended to a longer list.\<close>

definition zero_pad :: "int \<Rightarrow> nat list \<Rightarrow> nat list" where
  "zero_pad max_len xs = xs @ replicate (nat (max_len - int (length xs))) 0"

text \<open>
  The object a run leaves behind when no pass of the loop ends in \<^verbatim>\<open>return\<close>: the padded
  sequences, the token index \<open>st\<close> of the start and \<open>en\<close> of the end.
\<close>

definition aligned_example ::
  "(string \<Rightarrow> encoding) \<Rightarrow> int \<Rightarrow> example \<Rightarrow> nat \<Rightarrow> nat \<Rightarrow> example" where
  "aligned_example tokenizer max_len ex st en =
     assign_fields ex
       (zero_pad max_len (unpadded_input_ids tokenizer ex))
       (zero_pad max_len (unpadded_token_type_ids tokenizer ex))
       (zero_pad max_len (unpadded_attention_mask tokenizer ex))
       st en (offsets (tokenized_context tokenizer ex))"

text \<open>
  The two states of the data model in the specification: an example is fully aligned when
  it is not skipped and has all five derived fields, and it has no derived field when none
  of the five is assigned.
\<close>

definition aligned :: "example \<Rightarrow> bool" where
  "aligned ex =
     (\<not> skip ex \<and> input_ids ex \<noteq> None \<and> token_type_ids ex \<noteq> None \<and> attention_mask ex \<noteq> None
      \<and> start_token_idx ex \<noteq> None \<and> end_token_idx ex \<noteq> None)"

definition no_derived_fields :: "example \<Rightarrow> bool" where
  "no_derived_fields ex =
     (input_ids ex = None \<and> token_type_ids ex = None \<and> attention_mask ex = None
      \<and> start_token_idx ex = None \<and> end_token_idx ex = None)"

text \<open>The original fields of an example, and its skip flag with the derived fields.\<close>

definition original_fields :: "example \<Rightarrow> string \<times> string \<times> string \<times> int" where
  "original_fields ex = (question ex, context_text ex, answer_text ex, start_char_idx ex)"

definition derived_fields ::
  "example \<Rightarrow> bool \<times> nat list option \<times> nat list option \<times> nat list option \<times> nat option \<times> nat option" where
  "derived_fields ex =
     (skip ex, input_ids ex, token_type_ids ex, attention_mask ex, start_token_idx ex,
      end_token_idx ex)"


section \<open>Tokenizers for concrete runs\<close>

text \<open>
  Three small tokenizers, used where a statement is evaluated at a concrete input. \<open>tok_chars\<close>
  makes one token of every character. \<open>tok_words\<close> makes one token of every run of
  characters other than the space and, like the tokenizer of the notebook, puts a special
  token with offset pair \<open>(0, 0)\<close> at the start (id 101) and at the end (id 102).
  \<open>tok_none\<close> yields the encoding without tokens.
\<close>

definition tok_chars :: "string \<Rightarrow> encoding" where
  "tok_chars s = \<lparr>ids = map of_char s, offsets = map (\<lambda>i. (i, i + 1)) [0..<length s]\<rparr>"

fun word_spans :: "nat \<Rightarrow> nat option \<Rightarrow> string \<Rightarrow> (nat \<times> nat) list" where
  "word_spans i None [] = []"
| "word_spans i (Some b) [] = [(b, i)]"
| "word_spans i None (c # cs) =
     (if c = CHR '' '' then word_spans (i + 1) None cs else word_spans (i + 1) (Some i) cs)"
| "word_spans i (Some b) (c # cs) =
     (if c = CHR '' '' then (b, i) # word_spans (i + 1) None cs
      else word_spans (i + 1) (Some b) cs)"

definition tok_words :: "string \<Rightarrow> encoding" where
  "tok_words s =
     (let spans = word_spans 0 None s
      in \<lparr>ids = 101 # map (\<lambda>span. 1000 + fst span) spans @ [102],
          offsets = (0, 0) # spans @ [(0, 0)]\<rparr>)"

definition tok_none :: "string \<Rightarrow> encoding" where
  "tok_none s = \<lparr>ids = [], offsets = []\<rparr>"

section \<open>Marking characters and reading slices\<close>

lemma span_overlaps_iff:
  "span_overlaps (s, e) a b \<longleftrightarrow> (\<exists>c. int s \<le> c \<and> c < int e \<and> a \<le> c \<and> c < b)"
proof
  assume "span_overlaps (s, e) a b"
  then have "int s \<le> max (int s) a \<and> max (int s) a < int e \<and> a \<le> max (int s) a \<and> max (int s) a < b"
    by (auto simp: span_overlaps_def)
  then show "\<exists>c. int s \<le> c \<and> c < int e \<and> a \<le> c \<and> c < b" by blast
next
  assume "\<exists>c. int s \<le> c \<and> c < int e \<and> a \<le> c \<and> c < b"
  then show "span_overlaps (s, e) a b" by (auto simp: span_overlaps_def)
qed

lemma py_setitem_in_range:
  "0 \<le> i \<Longrightarrow> i < int (length xs) \<Longrightarrow> py_setitem xs i v = Inr (xs[nat i := v])"
  by (simp add: py_setitem_def Let_def)

text \<open>
  With a start that is not negative the marking loop returns, and it marks exactly the
  positions of \<open>[a, b)\<close>. With a start below \<open>-len\<close> its first store raises; from
  \<open>-len\<close> on it returns.
\<close>

lemma mark_chars_upto:
  "0 \<le> a \<Longrightarrow> b \<le> int (length m) \<Longrightarrow>
   mark_chars m [a..b - 1] =
     Inr (map (\<lambda>i. if a \<le> int i \<and> int i < b then 1 else m ! i) [0..<length m])"
proof (induction "nat (b - a)" arbitrary: a m)
  case 0
  then have "b \<le> a" by simp
  then have "[a..b - 1] = []" by simp
  moreover have "map (\<lambda>i. if a \<le> int i \<and> int i < b then 1 else m ! i) [0..<length m] = m"
    using \<open>b \<le> a\<close> by (intro nth_equalityI) auto
  ultimately show ?case by simp
next
  case (Suc k)
  then have lt: "a < b" by linarith
  then have up: "[a..b - 1] = a # [a + 1..b - 1]" by (simp add: upto_rec1)
  have st: "py_setitem m a 1 = Inr (m[nat a := 1])"
    using Suc.prems lt by (intro py_setitem_in_range) auto
  have k: "k = nat (b - (a + 1))" using Suc.hyps(2) by linarith
  have ih: "mark_chars (m[nat a := 1]) [a + 1..b - 1] =
     Inr (map (\<lambda>i. if a + 1 \<le> int i \<and> int i < b then 1 else m[nat a := 1] ! i)
            [0..<length (m[nat a := 1])])"
    using Suc.prems by (intro Suc.hyps(1)[OF k]) auto
  have el: "(if a + 1 \<le> int i \<and> int i < b then 1 else m[nat a := 1] ! i)
          = (if a \<le> int i \<and> int i < b then 1 else m ! i)" if "i < length m" for i
  proof (cases "i = nat a")
    case True
    then have "int i = a" using Suc.prems by simp
    then show ?thesis using that lt True by simp
  next
    case False
    then have "int i \<noteq> a" by auto
    then have "a + 1 \<le> int i \<longleftrightarrow> a \<le> int i" by linarith
    then show ?thesis using False by simp
  qed
  have "map (\<lambda>i. if a + 1 \<le> int i \<and> int i < b then 1 else m[nat a := 1] ! i) [0..<length (m[nat a := 1])]
      = map (\<lambda>i. if a \<le> int i \<and> int i < b then 1 else m ! i) [0..<length m]"
    using el by simp
  with ih st up show ?case by simp
qed

lemma mark_chars_raises:
  "a < b \<Longrightarrow> a < - int (length m) \<Longrightarrow> mark_chars m [a..b - 1] = Inl IndexError"
  by (simp add: upto_rec1 py_setitem_def Let_def)

lemma mark_chars_returns:
  "- int (length m) \<le> a \<Longrightarrow> b \<le> int (length m) \<Longrightarrow>
   \<exists>m'. mark_chars m [a..b - 1] = Inr m' \<and> length m' = length m"
proof (induction "nat (b - a)" arbitrary: a m)
  case 0
  then have "[a..b - 1] = []" by simp
  then show ?case by simp
next
  case (Suc k)
  then have lt: "a < b" by linarith
  then have up: "[a..b - 1] = a # [a + 1..b - 1]" by (simp add: upto_rec1)
  define j where "j = (if a < 0 then a + int (length m) else a)"
  have "0 \<le> j \<and> j < int (length m)" using Suc.prems lt by (simp add: j_def)
  then have "py_setitem m a 1 = Inr (m[nat j := 1])" by (simp add: py_setitem_def j_def)
  then obtain m1 where st: "py_setitem m a 1 = Inr m1" and len: "length m1 = length m"
    by simp
  have k: "k = nat (b - (a + 1))" using Suc.hyps(2) by linarith
  have "\<exists>m'. mark_chars m1 [a + 1..b - 1] = Inr m' \<and> length m' = length m1"
    using Suc.prems len by (intro Suc.hyps(1)[OF k]) auto
  with st up len show ?case by auto
qed

lemma sum_list_pos_iff: "sum_list (xs::nat list) > 0 \<longleftrightarrow> (\<exists>x\<in>set xs. x > 0)"
  by (induction xs) auto

text \<open>
  The test of the loop, \<^verbatim>\<open>sum(is_char_in_ans[start:end]) > 0\<close>, holds when some position of
  the slice is marked; for marks made from a start that is not negative this is the overlap
  of the offset pair with \<open>[a, b)\<close>.
\<close>

lemma in_set_py_slice:
  "x \<in> set (py_slice xs s e) \<longleftrightarrow> (\<exists>i. s \<le> i \<and> i < e \<and> i < length xs \<and> xs ! i = x)"
proof
  assume "x \<in> set (py_slice xs s e)"
  then obtain j where j: "j < length (py_slice xs s e)" "py_slice xs s e ! j = x"
    by (auto simp: in_set_conv_nth)
  then have "j < e - s" "s + j < length xs" by (auto simp: py_slice_def)
  moreover from this j have "xs ! (s + j) = x" by (simp add: py_slice_def)
  ultimately have "s \<le> s + j \<and> s + j < e \<and> s + j < length xs \<and> xs ! (s + j) = x" by auto
  then show "\<exists>i. s \<le> i \<and> i < e \<and> i < length xs \<and> xs ! i = x" by blast
next
  assume "\<exists>i. s \<le> i \<and> i < e \<and> i < length xs \<and> xs ! i = x"
  then obtain i where i: "s \<le> i" "i < e" "i < length xs" "xs ! i = x" by blast
  then have "i - s < length (py_slice xs s e)" by (auto simp: py_slice_def)
  moreover from i have "py_slice xs s e ! (i - s) = x" by (simp add: py_slice_def)
  ultimately show "x \<in> set (py_slice xs s e)" by (auto simp: in_set_conv_nth)
qed

lemma marked_iff:
  "marked m (s, e) \<longleftrightarrow> (\<exists>i. s \<le> i \<and> i < e \<and> i < length m \<and> m ! i > 0)"
  unfolding marked_def sum_list_pos_iff Bex_def in_set_py_slice fst_conv snd_conv by auto

lemma marked_interval:
  assumes "0 \<le> a" "b \<le> int n"
  shows "marked (map (\<lambda>i. if a \<le> int i \<and> int i < b then 1 else replicate n 0 ! i) [0..<n]) span
         \<longleftrightarrow> span_overlaps span a b"
proof -
  obtain s e where sp: "span = (s, e)" by (cases span)
  let ?m = "map (\<lambda>i. if a \<le> int i \<and> int i < b then (1::nat) else replicate n 0 ! i) [0..<n]"
  have el: "?m ! i > 0 \<longleftrightarrow> a \<le> int i \<and> int i < b" if "i < n" for i
    using that by simp
  have "marked ?m (s, e) \<longleftrightarrow> (\<exists>i. s \<le> i \<and> i < e \<and> i < n \<and> ?m ! i > 0)"
    unfolding marked_iff by simp
  also have "\<dots> \<longleftrightarrow> (\<exists>i. s \<le> i \<and> i < e \<and> i < n \<and> a \<le> int i \<and> int i < b)"
    using el by blast
  also have "\<dots> \<longleftrightarrow> (\<exists>c. int s \<le> c \<and> c < int e \<and> a \<le> c \<and> c < b)"
  proof
    assume "\<exists>i. s \<le> i \<and> i < e \<and> i < n \<and> a \<le> int i \<and> int i < b"
    then obtain i where "s \<le> i" "i < e" "a \<le> int i" "int i < b" by blast
    then have "int s \<le> int i \<and> int i < int e \<and> a \<le> int i \<and> int i < b" by simp
    then show "\<exists>c. int s \<le> c \<and> c < int e \<and> a \<le> c \<and> c < b" by blast
  next
    assume "\<exists>c. int s \<le> c \<and> c < int e \<and> a \<le> c \<and> c < b"
    then obtain c where c: "int s \<le> c" "c < int e" "a \<le> c" "c < b" by blast
    with assms have "s \<le> nat c \<and> nat c < e \<and> nat c < n \<and> a \<le> int (nat c) \<and> int (nat c) < b"
      by auto
    then show "\<exists>i. s \<le> i \<and> i < e \<and> i < n \<and> a \<le> int i \<and> int i < b" by blast
  qed
  finally show ?thesis by (simp add: sp span_overlaps_iff)
qed

lemma hits_shift: "hits p (Suc idx) offs = map Suc (hits p idx offs)"
  by (induction offs arbitrary: idx) auto

lemma hits_filter: "hits p 0 offs = filter (\<lambda>i. p (offs ! i)) [0..<length offs]"
proof (induction offs)
  case Nil
  then show ?case by simp
next
  case (Cons sp rest)
  have "[0..<length (sp # rest)] = 0 # map Suc [0..<length rest]"
    by (simp add: upt_conv_Cons map_Suc_upt del: upt_Suc)
  then show ?case using Cons by (simp add: hits_shift filter_map comp_def del: upt_Suc)
qed

section \<open>The token loop, pass by pass\<close>

lemma assign_fields_twice:
  "assign_fields (assign_fields self a b c d e f) a' b' c' d' e' f' = assign_fields self a' b' c' d' e' f'"
  by (simp add: assign_fields_def)

text \<open>
  One pass either returns with \<open>skip\<close> set (no answer token so far, or the input is longer
  than \<open>max_len\<close>) or assigns the padded sequences and goes on. Once a pass has gone on,
  every later pass goes on too, so the loop ends with the assignments of its last pass.
\<close>

lemma loop_body_cases:
  "loop_body tok ml q marks tc idx span ans self =
    (let ans' = (if marked marks span then ans @ [idx] else ans) in
     if ans' = [] then Return (self\<lparr>skip := True\<rparr>)
     else if ml < int (length (ids tc @ drop 1 (ids (tok q)))) then Return (self\<lparr>skip := True\<rparr>)
     else Continue ans'
        (assign_fields self
           (zero_pad ml (ids tc @ drop 1 (ids (tok q))))
           (zero_pad ml (replicate (length (ids tc)) 0 @ replicate (length (drop 1 (ids (tok q)))) 1))
           (zero_pad ml (replicate (length (ids tc @ drop 1 (ids (tok q)))) 1))
           (hd ans') (last ans') (offsets tc)))"
  by (simp add: loop_body_def marked_def Let_def zero_pad_def)

lemma token_loop_found:
  assumes "ans \<noteq> []" and "\<not> ml < int (length (ids tc @ drop 1 (ids (tok q))))"
  shows "token_loop (loop_body tok ml q marks tc) idx offs ans self =
     (if offs = [] then self
      else assign_fields self
           (zero_pad ml (ids tc @ drop 1 (ids (tok q))))
           (zero_pad ml (replicate (length (ids tc)) 0 @ replicate (length (drop 1 (ids (tok q)))) 1))
           (zero_pad ml (replicate (length (ids tc @ drop 1 (ids (tok q)))) 1))
           (hd ans) (last (ans @ hits (marked marks) idx offs)) (offsets tc))"
  using assms(1)
proof (induction offs arbitrary: idx ans self)
  case Nil
  then show ?case by simp
next
  case (Cons span rest)
  define ans' where "ans' = (if marked marks span then ans @ [idx] else ans)"
  have ne: "ans' \<noteq> []" and hd: "hd ans' = hd ans"
    using Cons.prems by (auto simp: ans'_def)
  have app: "ans' @ hits (marked marks) (idx + 1) rest = ans @ hits (marked marks) idx (span # rest)"
    by (simp add: ans'_def)
  have body: "loop_body tok ml q marks tc idx span ans self =
     Continue ans'
        (assign_fields self
           (zero_pad ml (ids tc @ drop 1 (ids (tok q))))
           (zero_pad ml (replicate (length (ids tc)) 0 @ replicate (length (drop 1 (ids (tok q)))) 1))
           (zero_pad ml (replicate (length (ids tc @ drop 1 (ids (tok q)))) 1))
           (hd ans') (last ans') (offsets tc))"
    using ne assms(2) unfolding loop_body_cases ans'_def Let_def by simp
  show ?case
  proof (cases "rest = []")
    case True
    then show ?thesis using body hd app by simp
  next
    case False
    then show ?thesis
      using body Cons.IH[OF ne, of "idx + 1"] hd app
      by (simp add: assign_fields_twice del: hits.simps)
  qed
qed

lemma token_loop_first:
  "token_loop (loop_body tok ml q marks tc) 0 (span # rest) [] self =
     (if \<not> marked marks span then self\<lparr>skip := True\<rparr>
      else if ml < int (length (ids tc @ drop 1 (ids (tok q)))) then self\<lparr>skip := True\<rparr>
      else assign_fields self
           (zero_pad ml (ids tc @ drop 1 (ids (tok q))))
           (zero_pad ml (replicate (length (ids tc)) 0 @ replicate (length (drop 1 (ids (tok q)))) 1))
           (zero_pad ml (replicate (length (ids tc @ drop 1 (ids (tok q)))) 1))
           0 (last (hits (marked marks) 0 (span # rest))) (offsets tc))"
proof (cases "marked marks span \<and> \<not> ml < int (length (ids tc @ drop 1 (ids (tok q))))")
  case False
  then show ?thesis by (auto simp: loop_body_cases)
next
  case True
  then have body: "loop_body tok ml q marks tc 0 span [] self =
     Continue [0]
        (assign_fields self
           (zero_pad ml (ids tc @ drop 1 (ids (tok q))))
           (zero_pad ml (replicate (length (ids tc)) 0 @ replicate (length (drop 1 (ids (tok q)))) 1))
           (zero_pad ml (replicate (length (ids tc @ drop 1 (ids (tok q)))) 1))
           0 0 (offsets tc))"
    by (simp add: loop_body_cases)
  have found: "token_loop (loop_body tok ml q marks tc) (Suc 0) rest [0] self' =
     (if rest = [] then self'
      else assign_fields self'
           (zero_pad ml (ids tc @ drop 1 (ids (tok q))))
           (zero_pad ml (replicate (length (ids tc)) 0 @ replicate (length (drop 1 (ids (tok q)))) 1))
           (zero_pad ml (replicate (length (ids tc @ drop 1 (ids (tok q)))) 1))
           0 (last ([0] @ hits (marked marks) (Suc 0) rest)) (offsets tc))" for self'
    using token_loop_found[of "[0]" ml tc tok q marks "Suc 0" rest self'] True by simp
  show ?thesis
  proof (cases "rest = []")
    case True
    then show ?thesis using body found \<open>marked marks span \<and> _\<close> by simp
  next
    case False
    then show ?thesis using body found \<open>marked marks span \<and> _\<close>
      by (simp add: assign_fields_twice)
  qed
qed

text \<open>
  The method as a case distinction: the bounds guard, the marking loop, and then the first
  token decides between \<open>skip\<close> and the aligned example. Without tokens the example comes
  back as it was.
\<close>

lemma preprocess_cases:
  "preprocess tok ml ex =
    (if end_char_idx ex \<ge> int (length (clean (context_text ex))) then Inr (ex\<lparr>skip := True\<rparr>)
     else case mark_chars (replicate (length (clean (context_text ex))) 0)
                 (py_range (start_char_idx ex) (end_char_idx ex)) of
        Inl e \<Rightarrow> Inl e
      | Inr marks \<Rightarrow>
          (case offsets (tokenized_context tok ex) of
             [] \<Rightarrow> Inr ex
           | span # rest \<Rightarrow>
               if \<not> marked marks span then Inr (ex\<lparr>skip := True\<rparr>)
               else if ml < int (length (unpadded_input_ids tok ex)) then Inr (ex\<lparr>skip := True\<rparr>)
               else Inr (aligned_example tok ml ex 0 (last (hits (marked marks) 0 (span # rest))))))"
  unfolding preprocess_def Let_def end_char_idx_def[symmetric]
  by (auto simp: token_loop_first aligned_example_def unpadded_input_ids_def
        unpadded_token_type_ids_def unpadded_attention_mask_def tokenized_context_def
        tokenized_question_def end_char_idx_def
      split: sum.splits list.splits simp del: hits.simps token_loop.simps(2))

text \<open>The same for a start that is not negative, with the overlap in place of the marks.\<close>

lemma preprocess_nonneg:
  assumes "0 \<le> start_char_idx ex"
  shows "preprocess tok ml ex =
    (if end_char_idx ex \<ge> int (length (clean (context_text ex))) then Inr (ex\<lparr>skip := True\<rparr>)
     else case offsets (tokenized_context tok ex) of
             [] \<Rightarrow> Inr ex
           | span # rest \<Rightarrow>
               if \<not> span_overlaps span (start_char_idx ex) (end_char_idx ex)
               then Inr (ex\<lparr>skip := True\<rparr>)
               else if ml < int (length (unpadded_input_ids tok ex)) then Inr (ex\<lparr>skip := True\<rparr>)
               else Inr (aligned_example tok ml ex 0
                      (last (answer_tokens (offsets (tokenized_context tok ex))
                               (start_char_idx ex) (end_char_idx ex)))))"
proof (cases "end_char_idx ex \<ge> int (length (clean (context_text ex)))")
  case True
  then show ?thesis by (simp add: preprocess_cases)
next
  case False
  let ?n = "length (clean (context_text ex))"
  let ?marked_chars = "map (\<lambda>i. if start_char_idx ex \<le> int i \<and> int i < end_char_idx ex then (1::nat)
                          else replicate ?n 0 ! i) [0..<?n]"
  have mk: "mark_chars (replicate ?n 0) (py_range (start_char_idx ex) (end_char_idx ex)) = Inr ?marked_chars"
    using mark_chars_upto[of "start_char_idx ex" "end_char_idx ex" "replicate ?n 0"] assms False
    by (simp add: py_range_def)
  have ov: "marked ?marked_chars span = span_overlaps span (start_char_idx ex) (end_char_idx ex)" for span
    using marked_interval[of "start_char_idx ex" "end_char_idx ex" ?n span] assms False by simp
  have "hits (marked ?marked_chars) 0 offs = answer_tokens offs (start_char_idx ex) (end_char_idx ex)" for offs
    by (simp add: hits_filter answer_tokens_def ov)
  then show ?thesis using False mk ov
    by (simp add: preprocess_cases split: list.splits del: hits.simps)
qed

section \<open>The outcomes of a run\<close>

lemma hits_less: "i \<in> set (hits p 0 offs) \<Longrightarrow> i < length offs"
  by (simp add: hits_filter)

lemma last_hits_less:
  assumes "p span"
  shows "last (hits p 0 (span # rest)) < length (span # rest)"
proof -
  have "hits p 0 (span # rest) \<noteq> []" using assms by simp
  then have "last (hits p 0 (span # rest)) \<in> set (hits p 0 (span # rest))" by (rule last_in_set)
  then show ?thesis by (rule hits_less)
qed

text \<open>The three ways a run can return.\<close>

lemma preprocess_outcomes:
  assumes "preprocess tok ml ex = Inr ex'"
  shows "ex' = ex\<lparr>skip := True\<rparr>
       \<or> (ex' = ex \<and> offsets (tokenized_context tok ex) = [])
       \<or> (\<exists>en. ex' = aligned_example tok ml ex 0 en
              \<and> en < length (offsets (tokenized_context tok ex))
              \<and> int (length (unpadded_input_ids tok ex)) \<le> ml)"
proof (cases "end_char_idx ex \<ge> int (length (clean (context_text ex)))")
  case True
  then show ?thesis using assms by (simp add: preprocess_cases)
next
  case False
  then obtain marks where
    mk: "mark_chars (replicate (length (clean (context_text ex))) 0)
           (py_range (start_char_idx ex) (end_char_idx ex)) = Inr marks"
    using assms by (auto simp: preprocess_cases split: sum.splits)
  show ?thesis
  proof (cases "offsets (tokenized_context tok ex)")
    case Nil
    then show ?thesis using assms False mk by (simp add: preprocess_cases)
  next
    case (Cons span rest)
    show ?thesis
    proof (cases "marked marks span \<and> \<not> ml < int (length (unpadded_input_ids tok ex))")
      case False
      then show ?thesis using assms \<open>\<not> _ \<le> end_char_idx ex\<close> mk Cons
        by (auto simp: preprocess_cases split: if_splits simp del: hits.simps)
    next
      case True
      then have "ex' = aligned_example tok ml ex 0 (last (hits (marked marks) 0 (span # rest)))"
        using assms \<open>\<not> _ \<le> end_char_idx ex\<close> mk Cons
        by (simp add: preprocess_cases del: hits.simps)
      moreover have "last (hits (marked marks) 0 (span # rest)) < length (span # rest)"
        using True by (intro last_hits_less) simp
      ultimately show ?thesis using True Cons by auto
    qed
  qed
qed

lemma aligned_example_fields [simp]:
  "question (aligned_example tok ml ex st en) = question ex"
  "context_text (aligned_example tok ml ex st en) = context_text ex"
  "start_char_idx (aligned_example tok ml ex st en) = start_char_idx ex"
  "answer_text (aligned_example tok ml ex st en) = answer_text ex"
  "all_answers (aligned_example tok ml ex st en) = all_answers ex"
  "skip (aligned_example tok ml ex st en) = skip ex"
  "input_ids (aligned_example tok ml ex st en) = Some (zero_pad ml (unpadded_input_ids tok ex))"
  "token_type_ids (aligned_example tok ml ex st en) = Some (zero_pad ml (unpadded_token_type_ids tok ex))"
  "attention_mask (aligned_example tok ml ex st en) = Some (zero_pad ml (unpadded_attention_mask tok ex))"
  "start_token_idx (aligned_example tok ml ex st en) = Some st"
  "end_token_idx (aligned_example tok ml ex st en) = Some en"
  "context_token_to_char (aligned_example tok ml ex st en) = Some (offsets (tokenized_context tok ex))"
  by (simp_all add: aligned_example_def assign_fields_def)

lemma SquadExample_fields [simp]:
  "question (SquadExample q c s a al) = q"
  "context_text (SquadExample q c s a al) = c"
  "start_char_idx (SquadExample q c s a al) = s"
  "answer_text (SquadExample q c s a al) = a"
  "all_answers (SquadExample q c s a al) = al"
  "skip (SquadExample q c s a al) = False"
  "input_ids (SquadExample q c s a al) = None"
  "token_type_ids (SquadExample q c s a al) = None"
  "attention_mask (SquadExample q c s a al) = None"
  "start_token_idx (SquadExample q c s a al) = None"
  "end_token_idx (SquadExample q c s a al) = None"
  "context_token_to_char (SquadExample q c s a al) = None"
  by (simp_all add: SquadExample_def)

text \<open>A fresh example that comes back aligned was aligned by the last pass of the loop.\<close>

lemma aligned_result:
  assumes "preprocess tok ml (SquadExample q c s a al) = Inr ex'" and "aligned ex'"
  shows "\<exists>en. ex' = aligned_example tok ml (SquadExample q c s a al) 0 en
              \<and> en < length (offsets (tokenized_context tok (SquadExample q c s a al)))
              \<and> int (length (unpadded_input_ids tok (SquadExample q c s a al))) \<le> ml"
  using preprocess_outcomes[OF assms(1)] assms(2) by (auto simp: aligned_def)

lemma length_unpadded [simp]:
  "length (unpadded_token_type_ids tok ex) = length (unpadded_input_ids tok ex)"
  "length (unpadded_attention_mask tok ex) = length (unpadded_input_ids tok ex)"
  by (simp_all add: unpadded_token_type_ids_def unpadded_attention_mask_def unpadded_input_ids_def)

lemma take_zero_pad [simp]: "take (length xs) (zero_pad ml xs) = xs"
  by (simp add: zero_pad_def)

lemma length_zero_pad: "int (length xs) \<le> ml \<Longrightarrow> int (length (zero_pad ml xs)) = ml"
  by (simp add: zero_pad_def)

lemma nth_zero_pad_beyond:
  "length xs \<le> i \<Longrightarrow> i < length (zero_pad ml xs) \<Longrightarrow> zero_pad ml xs ! i = 0"
  by (simp add: zero_pad_def nth_append)

text \<open>
  An aligned result has three sequences of length \<open>max_len\<close> with zeros after the unpadded
  part, and a run that returns with at least one token and an input longer than \<open>max_len\<close>
  is skipped.
\<close>

lemma padded_to_max_len:
  assumes "preprocess tok ml (SquadExample q c s a al) = Inr ex'" and "aligned ex'"
  shows "\<exists>inp tti am.
           input_ids ex' = Some inp \<and> token_type_ids ex' = Some tti \<and> attention_mask ex' = Some am
         \<and> int (length inp) = ml \<and> int (length tti) = ml \<and> int (length am) = ml
         \<and> (\<forall>i. length (unpadded_input_ids tok (SquadExample q c s a al)) \<le> i \<and> i < length inp
                \<longrightarrow> inp ! i = 0 \<and> tti ! i = 0 \<and> am ! i = 0)"
proof -
  let ?ex = "SquadExample q c s a al"
  obtain en where ex': "ex' = aligned_example tok ml ?ex 0 en"
    and fit: "int (length (unpadded_input_ids tok ?ex)) \<le> ml"
    using aligned_result[OF assms] by blast
  have len: "int (length (zero_pad ml (unpadded_input_ids tok ?ex))) = ml"
       "int (length (zero_pad ml (unpadded_token_type_ids tok ?ex))) = ml"
       "int (length (zero_pad ml (unpadded_attention_mask tok ?ex))) = ml"
    using fit by (simp_all add: length_zero_pad)
  then have same: "length (zero_pad ml (unpadded_token_type_ids tok ?ex)) = length (zero_pad ml (unpadded_input_ids tok ?ex))"
      "length (zero_pad ml (unpadded_attention_mask tok ?ex)) = length (zero_pad ml (unpadded_input_ids tok ?ex))"
    by linarith+
  show ?thesis using ex' len same
    by (auto intro!: nth_zero_pad_beyond)
qed

lemma overflow_skips:
  assumes "preprocess tok ml ex = Inr ex'"
    and "offsets (tokenized_context tok ex) \<noteq> []"
    and "ml < int (length (unpadded_input_ids tok ex))"
  shows "ex' = ex\<lparr>skip := True\<rparr>"
  using preprocess_outcomes[OF assms(1)] assms(2,3) by auto

text \<open>
  The method raises exactly when the answer passes the bounds guard, is not empty and starts
  more than \<open>len(context)\<close> before the context.
\<close>

lemma preprocess_raises_iff:
  "preprocess tok ml ex = Inl IndexError \<longleftrightarrow>
     end_char_idx ex < int (length (clean (context_text ex)))
   \<and> start_char_idx ex < end_char_idx ex
   \<and> start_char_idx ex < - int (length (clean (context_text ex)))"
proof (cases "end_char_idx ex \<ge> int (length (clean (context_text ex)))")
  case True
  then show ?thesis by (simp add: preprocess_cases)
next
  case False
  let ?n = "length (clean (context_text ex))"
  show ?thesis
  proof (cases "start_char_idx ex < end_char_idx ex \<and> start_char_idx ex < - int ?n")
    case True
    then have "mark_chars (replicate ?n 0) (py_range (start_char_idx ex) (end_char_idx ex)) = Inl IndexError"
      using mark_chars_raises[of "start_char_idx ex" "end_char_idx ex" "replicate ?n 0"]
      by (simp add: py_range_def)
    then show ?thesis using True False by (simp add: preprocess_cases)
  next
    case nr: False
    have "\<exists>m'. mark_chars (replicate ?n 0) (py_range (start_char_idx ex) (end_char_idx ex)) = Inr m'"
    proof (cases "start_char_idx ex < end_char_idx ex")
      case True
      then show ?thesis
        using mark_chars_returns[of "replicate ?n 0" "start_char_idx ex" "end_char_idx ex"] nr False
        by (auto simp: py_range_def)
    next
      case False
      then show ?thesis by (simp add: py_range_def)
    qed
    then show ?thesis using nr False
      by (auto simp: preprocess_cases split: list.splits if_splits simp del: hits.simps)
  qed
qed

lemma skip_update_fields [simp]:
  "no_derived_fields (ex\<lparr>skip := True\<rparr>) = no_derived_fields ex"
  "original_fields (ex\<lparr>skip := True\<rparr>) = original_fields ex"
  "end_char_idx (ex\<lparr>skip := True\<rparr>) = end_char_idx ex"
  "tokenized_context tok (ex\<lparr>skip := True\<rparr>) = tokenized_context tok ex"
  "unpadded_input_ids tok (ex\<lparr>skip := True\<rparr>) = unpadded_input_ids tok ex"
  by (simp_all add: no_derived_fields_def original_fields_def end_char_idx_def
        tokenized_context_def tokenized_question_def unpadded_input_ids_def)

lemma aligned_example_more [simp]:
  "original_fields (aligned_example tok ml ex st en) = original_fields ex"
  "end_char_idx (aligned_example tok ml ex st en) = end_char_idx ex"
  "tokenized_context tok' (aligned_example tok ml ex st en) = tokenized_context tok' ex"
  "unpadded_input_ids tok' (aligned_example tok ml ex st en) = unpadded_input_ids tok' ex"
  "unpadded_token_type_ids tok' (aligned_example tok ml ex st en) = unpadded_token_type_ids tok' ex"
  "unpadded_attention_mask tok' (aligned_example tok ml ex st en) = unpadded_attention_mask tok' ex"
  by (simp_all add: original_fields_def end_char_idx_def tokenized_context_def
        tokenized_question_def unpadded_input_ids_def unpadded_token_type_ids_def
        unpadded_attention_mask_def)

lemma aligned_example_twice [simp]:
  "aligned_example tok ml (aligned_example tok ml ex st en) st' en' = aligned_example tok ml ex st' en'"
  by (simp add: aligned_example_def assign_fields_def tokenized_context_def
        tokenized_question_def unpadded_input_ids_def unpadded_token_type_ids_def
        unpadded_attention_mask_def)

text \<open>With at least one context token, a fresh example ends in one of the two states.\<close>

lemma two_states_when_tokens:
  assumes "preprocess tok ml (SquadExample q c s a al) = Inr ex'"
    and "offsets (tok (clean c)) \<noteq> []"
  shows "aligned ex' \<or> (skip ex' \<and> no_derived_fields ex')"
  using preprocess_outcomes[OF assms(1)] assms(2)
  by (auto simp: aligned_def no_derived_fields_def tokenized_context_def)

text \<open>
  For a start that is not negative and at least one token: an example without answer tokens
  is skipped, and the token indices of an aligned result are the first and the last answer
  token.
\<close>

lemma answer_tokens_Cons_empty:
  assumes "answer_tokens (span # rest) a b = []"
  shows "\<not> span_overlaps span a b"
proof -
  have "\<forall>i\<in>set [0..<length (span # rest)]. \<not> span_overlaps ((span # rest) ! i) a b"
    using assms by (simp only: answer_tokens_def filter_empty_conv)
  moreover have "0 \<in> set [0..<length (span # rest)]" by simp
  ultimately have "\<not> span_overlaps ((span # rest) ! 0) a b" by blast
  then show ?thesis by simp
qed

lemma hd_answer_tokens:
  "span_overlaps span a b \<Longrightarrow> hd (answer_tokens (span # rest) a b) = 0"
  by (simp add: answer_tokens_def upt_conv_Cons del: upt_Suc)

lemma no_answer_token_skips:
  assumes "0 \<le> start_char_idx ex"
    and "offsets (tokenized_context tok ex) \<noteq> []"
    and "answer_tokens (offsets (tokenized_context tok ex)) (start_char_idx ex) (end_char_idx ex) = []"
  shows "preprocess tok ml ex = Inr (ex\<lparr>skip := True\<rparr>)"
proof -
  obtain span rest where offs: "offsets (tokenized_context tok ex) = span # rest"
    using assms(2) by (cases "offsets (tokenized_context tok ex)") auto
  then have "\<not> span_overlaps span (start_char_idx ex) (end_char_idx ex)"
    using assms(3) by (simp add: answer_tokens_Cons_empty)
  then show ?thesis using offs by (simp add: preprocess_nonneg[OF assms(1)])
qed

lemma token_span_is_answer_tokens:
  assumes "0 \<le> s"
    and "preprocess tok ml (SquadExample q c s a al) = Inr ex'" and "aligned ex'"
  shows "answer_tokens (offsets (tok (clean c))) s (s + int (length (clean a))) \<noteq> []
       \<and> start_token_idx ex' = Some (hd (answer_tokens (offsets (tok (clean c))) s (s + int (length (clean a)))))
       \<and> end_token_idx ex' = Some (last (answer_tokens (offsets (tok (clean c))) s (s + int (length (clean a)))))"
proof -
  let ?ex = "SquadExample q c s a al"
  let ?e = "s + int (length (clean a))"
  have s: "0 \<le> start_char_idx ?ex" using assms(1) by simp
  have e: "end_char_idx ?ex = ?e" by (simp add: end_char_idx_def)
  have tc: "offsets (tokenized_context tok ?ex) = offsets (tok (clean c))"
    by (simp add: tokenized_context_def)
  have not_skipped: "ex' \<noteq> ?ex\<lparr>skip := True\<rparr>" and not_fresh: "ex' \<noteq> ?ex"
    using assms(3) by (auto simp: aligned_def)
  have len: "length (clean (context_text ?ex)) = length (clean c)" by simp
  have st: "start_char_idx ?ex = s" by simp
  show ?thesis
  proof (cases "offsets (tok (clean c))")
    case Nil
    then have "preprocess tok ml ?ex = Inr (?ex\<lparr>skip := True\<rparr>) \<or> preprocess tok ml ?ex = Inr ?ex"
      unfolding preprocess_nonneg[OF s] tc by simp
    then have "ex' = ?ex\<lparr>skip := True\<rparr> \<or> ex' = ?ex"
      using assms(2) by auto
    then show ?thesis using not_skipped not_fresh by blast
  next
    case (Cons span rest)
    have run: "preprocess tok ml ?ex =
      (if ?e \<ge> int (length (clean c)) \<or> \<not> span_overlaps span s ?e
          \<or> ml < int (length (unpadded_input_ids tok ?ex))
       then Inr (?ex\<lparr>skip := True\<rparr>)
       else Inr (aligned_example tok ml ?ex 0 (last (answer_tokens (span # rest) s ?e))))"
      unfolding preprocess_nonneg[OF s] tc e len st Cons by simp
    have good: "\<not> (?e \<ge> int (length (clean c)) \<or> \<not> span_overlaps span s ?e
          \<or> ml < int (length (unpadded_input_ids tok ?ex)))"
    proof
      assume "?e \<ge> int (length (clean c)) \<or> \<not> span_overlaps span s ?e
          \<or> ml < int (length (unpadded_input_ids tok ?ex))"
      then have "preprocess tok ml ?ex = Inr (?ex\<lparr>skip := True\<rparr>)"
        by (simp only: run if_True)
      then show False using assms(2) not_skipped by simp
    qed
    then have "preprocess tok ml ?ex
                 = Inr (aligned_example tok ml ?ex 0 (last (answer_tokens (span # rest) s ?e)))"
      by (simp only: run if_False)
    then have r: "ex' = aligned_example tok ml ?ex 0 (last (answer_tokens (span # rest) s ?e))"
      using assms(2) by simp
    have ov: "span_overlaps span s ?e" using good by blast
    then have "answer_tokens (span # rest) s ?e \<noteq> []"
      using answer_tokens_Cons_empty by blast
    then show ?thesis using ov Cons by (simp add: r hd_answer_tokens)
  qed
qed

text \<open>
  For a start that is not negative the first token decides: when it does not overlap
  \<open>[start_char_idx, end_char_idx)\<close> the example comes back with \<open>skip\<close> set and nothing
  else changed, whatever the later tokens are. In the run below, with a special token
  \<open>(0, 0)\<close> in front, the third token is the answer and the example is skipped.
\<close>

lemma first_token_decides:
  assumes "0 \<le> start_char_idx ex"
    and "offsets (tokenized_context tok ex) = span # rest"
    and "\<not> span_overlaps span (start_char_idx ex) (end_char_idx ex)"
  shows "preprocess tok ml ex = Inr (ex\<lparr>skip := True\<rparr>)"
  using assms(2,3) by (simp add: preprocess_nonneg[OF assms(1)])

lemma first_token_decides_run:
  "answer_tokens [(0, 0), (0, 3), (4, 9), (10, 15), (16, 19), (0, 0)] 4 9 = [2]
   \<and> preprocess tok_words notebook_max_len
         (SquadExample ''Who jumps?'' ''The quick brown fox'' 4 ''quick'' [''quick''])
       = Inr ((SquadExample ''Who jumps?'' ''The quick brown fox'' 4 ''quick'' [''quick''])
                \<lparr>skip := True\<rparr>)"
proof -
  let ?ex = "SquadExample ''Who jumps?'' ''The quick brown fox'' 4 ''quick'' [''quick'']"
  have h1: "0 \<le> start_char_idx ?ex" by code_simp
  have h2: "offsets (tokenized_context tok_words ?ex)
       = (0, 0) # [(0, 3), (4, 9), (10, 15), (16, 19), (0, 0)]" by code_simp
  have h3: "\<not> span_overlaps (0, 0) (start_char_idx ?ex) (end_char_idx ?ex)" by code_simp
  have later: "answer_tokens [(0, 0), (0, 3), (4, 9), (10, 15), (16, 19), (0, 0)] 4 9 = [2]"
    by code_simp
  show ?thesis
    using later first_token_decides[OF h1 h2 h3, of notebook_max_len] by blast
qed

section \<open>The claims\<close>

text \<open>
  Each claim about \<^verbatim>\<open>SquadExample.preprocess\<close> follows with its number. A run is
  \<open>preprocess tokenizer max_len ex\<close>; a new example is one built by \<open>SquadExample\<close>.
\<close>




text \<open>
  \<^bold>\<open>C2\<close>. The specification says that after \<open>preprocess\<close> an example is either fully
  aligned or skipped without derived fields, also when the tokenized context has no offsets.
  The test \<^verbatim>\<open>len(ans_token_idx) == 0\<close> is inside the loop over the offsets, so with no
  offsets nothing runs: the example comes back as it was built, not skipped and without any
  derived field.
\<close>

theorem C2_no_tokens_neither_aligned_nor_skipped:
  "preprocess tok_none notebook_max_len (SquadExample ''q?'' ''abc'' 0 ''a'' [''a''])
     = Inr (SquadExample ''q?'' ''abc'' 0 ''a'' [''a''])
   \<and> \<not> skip (SquadExample ''q?'' ''abc'' 0 ''a'' [''a''])
   \<and> \<not> aligned (SquadExample ''q?'' ''abc'' 0 ''a'' [''a''])
   \<and> no_derived_fields (SquadExample ''q?'' ''abc'' 0 ''a'' [''a''])"
  by code_simp

text \<open>
  \<^bold>\<open>C3\<close>. The specification says that an example is skipped when no token of the tokenized
  context overlaps the character interval of the answer. With a tokenized context without
  tokens no token overlaps the interval, and the example is not skipped (the loop that holds
  the test never runs, as for C2).
\<close>

theorem C3_no_answer_token_not_skipped:
  "answer_tokens
     (offsets (tokenized_context tok_none
        (SquadExample ''Who jumps?'' ''The quick brown fox'' 4 ''quick'' [''quick''])))
     4 9 = []
   \<and> end_char_idx (SquadExample ''Who jumps?'' ''The quick brown fox'' 4 ''quick'' [''quick'']) = 9
   \<and> preprocess tok_none notebook_max_len
         (SquadExample ''Who jumps?'' ''The quick brown fox'' 4 ''quick'' [''quick''])
       = Inr (SquadExample ''Who jumps?'' ''The quick brown fox'' 4 ''quick'' [''quick''])
   \<and> \<not> skip (SquadExample ''Who jumps?'' ''The quick brown fox'' 4 ''quick'' [''quick''])"
  by code_simp

text \<open>
  \<^bold>\<open>C4\<close>. For every example, in any state, with
  \<open>start_char_idx + len(answer) \<ge> len(context)\<close>, both after cleaning, \<open>preprocess\<close> returns
  the example with \<open>skip\<close> set and nothing else changed.
\<close>

theorem C4_out_of_bounds_skips:
  assumes "start_char_idx ex + int (length (clean (answer_text ex)))
             \<ge> int (length (clean (context_text ex)))"
  shows "preprocess tok ml ex = Inr (ex\<lparr>skip := True\<rparr>)"
  using assms by (simp add: preprocess_cases end_char_idx_def)

theorem C4_out_of_bounds_skips_witness:
  "start_char_idx (SquadExample ''Who jumps?'' ''The quick brown fox.'' 100 ''quick'' [''quick''])
     + int (length (clean (answer_text
         (SquadExample ''Who jumps?'' ''The quick brown fox.'' 100 ''quick'' [''quick'']))))
     \<ge> int (length (clean (context_text
         (SquadExample ''Who jumps?'' ''The quick brown fox.'' 100 ''quick'' [''quick'']))))
   \<and> preprocess tok_words notebook_max_len
         (SquadExample ''Who jumps?'' ''The quick brown fox.'' 100 ''quick'' [''quick''])
       = Inr ((SquadExample ''Who jumps?'' ''The quick brown fox.'' 100 ''quick'' [''quick''])
                \<lparr>skip := True\<rparr>)"
proof -
  have h: "start_char_idx (SquadExample ''Who jumps?'' ''The quick brown fox.'' 100 ''quick'' [''quick''])
     + int (length (clean (answer_text
         (SquadExample ''Who jumps?'' ''The quick brown fox.'' 100 ''quick'' [''quick'']))))
     \<ge> int (length (clean (context_text
         (SquadExample ''Who jumps?'' ''The quick brown fox.'' 100 ''quick'' [''quick'']))))"
    by code_simp
  show ?thesis using h C4_out_of_bounds_skips[OF h, of tok_words notebook_max_len] by blast
qed

text \<open>
  \<^bold>\<open>C5\<close>. The specification says that in a result that is not skipped the start and end token
  indices are the first and the last token that contain a character of
  \<open>[start_char_idx, end_char_idx)\<close>. The method does not reject a negative
  \<open>start_char_idx\<close>: the store \<^verbatim>\<open>is_char_in_ans[idx] = 1\<close> with a negative index marks a
  character counted from the end of the context. With the context \<open>abc\<close>, the answer \<open>ab\<close>
  and \<open>start_char_idx = -1\<close> the interval is \<open>[-1, 1)\<close>, which only the token 0 overlaps,
  and the run returns the end token index 2.
\<close>

theorem C5_negative_start_marks_from_the_end:
  "preprocess tok_chars 10 (SquadExample ''q?'' ''abc'' (- 1) ''ab'' [''ab''])
     = Inr ((SquadExample ''q?'' ''abc'' (- 1) ''ab'' [''ab''])
              \<lparr>input_ids := Some [97, 98, 99, 63, 0, 0, 0, 0, 0, 0],
               token_type_ids := Some [0, 0, 0, 1, 0, 0, 0, 0, 0, 0],
               attention_mask := Some [1, 1, 1, 1, 0, 0, 0, 0, 0, 0],
               start_token_idx := Some 0, end_token_idx := Some 2,
               context_token_to_char := Some [(0, 1), (1, 2), (2, 3)]\<rparr>)
   \<and> end_char_idx (SquadExample ''q?'' ''abc'' (- 1) ''ab'' [''ab'']) = 1
   \<and> answer_tokens (offsets (tok_chars (clean ''abc''))) (- 1) 1 = [0]"
  by code_simp

text \<open>
  \<^bold>\<open>C6\<close>. Whenever \<open>preprocess\<close>, run on a new example, returns an example that is not
  skipped and has its derived fields: \<open>input_ids\<close> begins with the ids of the context
  followed by the ids of the question without the first one; \<open>token_type_ids\<close> is 0 at
  every position of a context token and 1 at every position of a question token; and
  \<open>attention_mask\<close> is 1 at every position before the padding.
\<close>

theorem C6_inputs_before_padding:
  assumes "preprocess tok ml (SquadExample q c s a al) = Inr ex'" and "aligned ex'"
  shows "\<exists>inp tti am.
           input_ids ex' = Some inp \<and> token_type_ids ex' = Some tti \<and> attention_mask ex' = Some am
         \<and> take (length (ids (tok (clean c))) + length (drop 1 (ids (tok (clean q))))) inp
             = ids (tok (clean c)) @ drop 1 (ids (tok (clean q)))
         \<and> (\<forall>i < length (ids (tok (clean c))). tti ! i = 0)
         \<and> (\<forall>i < length (drop 1 (ids (tok (clean q)))). tti ! (length (ids (tok (clean c))) + i) = 1)
         \<and> (\<forall>i < length (ids (tok (clean c))) + length (drop 1 (ids (tok (clean q)))). am ! i = 1)"
proof -
  let ?ex = "SquadExample q c s a al"
  let ?n = "length (ids (tok (clean c))) + length (drop 1 (ids (tok (clean q))))"
  obtain en where ex': "ex' = aligned_example tok ml ?ex 0 en"
    using aligned_result[OF assms] by blast
  have n: "length (unpadded_input_ids tok ?ex) = ?n"
    by (simp add: unpadded_input_ids_def tokenized_context_def tokenized_question_def)
  have inp: "take ?n (zero_pad ml (unpadded_input_ids tok ?ex))
               = ids (tok (clean c)) @ drop 1 (ids (tok (clean q)))"
    using take_zero_pad[of "unpadded_input_ids tok ?ex" ml] unfolding n
    by (simp add: unpadded_input_ids_def tokenized_context_def tokenized_question_def)
  have tti0: "zero_pad ml (unpadded_token_type_ids tok ?ex) ! i = 0"
    if "i < length (ids (tok (clean c)))" for i
    using that
    by (simp add: zero_pad_def unpadded_token_type_ids_def tokenized_context_def
          tokenized_question_def nth_append)
  have tti1: "zero_pad ml (unpadded_token_type_ids tok ?ex) ! (length (ids (tok (clean c))) + i) = 1"
    if "i < length (drop 1 (ids (tok (clean q))))" for i
    using that
    by (simp add: zero_pad_def unpadded_token_type_ids_def tokenized_context_def
          tokenized_question_def nth_append)
  have am: "zero_pad ml (unpadded_attention_mask tok ?ex) ! i = 1" if "i < ?n" for i
    using that n
    by (simp add: zero_pad_def unpadded_attention_mask_def nth_append)
  show ?thesis using ex' inp tti0 tti1 am by simp
qed

theorem C6_inputs_before_padding_witness:
  "preprocess tok_chars 10 (SquadExample ''q?'' ''abcd'' 1 ''bc'' [''bc''])
     = Inr ((SquadExample ''q?'' ''abcd'' 1 ''bc'' [''bc''])\<lparr>skip := True\<rparr>)
   \<and> preprocess tok_chars 10 (SquadExample ''why'' ''abcd'' 0 ''abc'' [''abc''])
     = Inr ((SquadExample ''why'' ''abcd'' 0 ''abc'' [''abc''])
              \<lparr>input_ids := Some [97, 98, 99, 100, 104, 121, 0, 0, 0, 0],
               token_type_ids := Some [0, 0, 0, 0, 1, 1, 0, 0, 0, 0],
               attention_mask := Some [1, 1, 1, 1, 1, 1, 0, 0, 0, 0],
               start_token_idx := Some 0, end_token_idx := Some 2,
               context_token_to_char := Some [(0, 1), (1, 2), (2, 3), (3, 4)]\<rparr>)
   \<and> (\<exists>inp tti am.
         Some [97, 98, 99, 100, 104, 121, 0, 0, 0, 0] = Some inp
       \<and> Some [0, 0, 0, 0, 1, 1, 0, 0, 0, 0] = Some (tti :: nat list)
       \<and> Some [1, 1, 1, 1, 1, 1, 0, 0, 0, 0] = Some (am :: nat list)
       \<and> take (length (ids (tok_chars (clean ''abcd'')))
               + length (drop 1 (ids (tok_chars (clean ''why''))))) inp
           = ids (tok_chars (clean ''abcd'')) @ drop 1 (ids (tok_chars (clean ''why'')))
       \<and> (\<forall>i < length (ids (tok_chars (clean ''abcd''))). tti ! i = 0)
       \<and> (\<forall>i < length (drop 1 (ids (tok_chars (clean ''why'')))).
             tti ! (length (ids (tok_chars (clean ''abcd''))) + i) = 1)
       \<and> (\<forall>i < length (ids (tok_chars (clean ''abcd'')))
                 + length (drop 1 (ids (tok_chars (clean ''why'')))). am ! i = 1))"
proof -
  let ?ex' = "(SquadExample ''why'' ''abcd'' 0 ''abc'' [''abc''])
              \<lparr>input_ids := Some [97, 98, 99, 100, 104, 121, 0, 0, 0, 0],
               token_type_ids := Some [0, 0, 0, 0, 1, 1, 0, 0, 0, 0],
               attention_mask := Some [1, 1, 1, 1, 1, 1, 0, 0, 0, 0],
               start_token_idx := Some 0, end_token_idx := Some 2,
               context_token_to_char := Some [(0, 1), (1, 2), (2, 3), (3, 4)]\<rparr>"
  have other: "preprocess tok_chars 10 (SquadExample ''q?'' ''abcd'' 1 ''bc'' [''bc''])
     = Inr ((SquadExample ''q?'' ''abcd'' 1 ''bc'' [''bc''])\<lparr>skip := True\<rparr>)"
    by code_simp
  have run: "preprocess tok_chars 10 (SquadExample ''why'' ''abcd'' 0 ''abc'' [''abc'']) = Inr ?ex'"
    by code_simp
  have al: "aligned ?ex'" by code_simp
  have fields: "input_ids ?ex' = Some [97, 98, 99, 100, 104, 121, 0, 0, 0, 0]"
    "token_type_ids ?ex' = Some [0, 0, 0, 0, 1, 1, 0, 0, 0, 0]"
    "attention_mask ?ex' = Some [1, 1, 1, 1, 1, 1, 0, 0, 0, 0]"
    by simp_all
  note concl = C6_inputs_before_padding[OF run al, unfolded fields]
  show ?thesis by (rule conjI[OF other conjI[OF run concl]])
qed

text \<open>
  \<^bold>\<open>C7\<close>. The specification says that every input whose unpadded input is longer than
  \<open>max_len\<close> ends as skipped. With the context \<open>ab\<close>, the answer \<open>a\<close> and
  \<open>start_char_idx = -5\<close> the unpadded input has 4 ids, more than \<open>max_len = 3\<close>, and the
  run does not end as skipped: the store \<^verbatim>\<open>is_char_in_ans[-5] = 1\<close> into a list of two
  elements raises IndexError.
\<close>

theorem C7_overflow_input_raises:
  "length (unpadded_input_ids tok_chars (SquadExample ''why'' ''ab'' (- 5) ''a'' [''a''])) = 4
   \<and> preprocess tok_chars 3 (SquadExample ''why'' ''ab'' (- 5) ''a'' [''a'']) = Inl IndexError"
  by code_simp

text \<open>
  \<^bold>\<open>C8\<close>. The specification says that \<open>preprocess\<close> never raises, for any integer
  \<open>start_char_idx\<close>. The method tests the upper end of the answer against the length of the
  context and not the lower end: with a context of 20 characters, an answer of 5 and
  \<open>start_char_idx = -100\<close> the first store \<^verbatim>\<open>is_char_in_ans[-100] = 1\<close> raises IndexError.
\<close>

theorem C8_negative_start_raises:
  "preprocess tok_words notebook_max_len
     (SquadExample ''Who jumps?'' ''The quick brown fox.'' (- 100) ''quick'' [''quick''])
   = Inl IndexError"
  by code_simp

text \<open>
  \<^bold>\<open>C9\<close>. For a fixed tokenizer and \<open>max_len\<close>, the outcome of \<open>preprocess\<close> is a function
  of the original fields: two examples with the same question, context, answer text and
  \<open>start_char_idx\<close>, in the same state of the skip flag and the derived fields (as two
  examples built from the same record are), both raise or come back with the same skip flag
  and the same derived fields. A run that returns leaves the original fields and
  \<open>all_answers\<close> as they were, and a second run on the returned example returns it unchanged.
\<close>

theorem C9_function_of_original_fields:
  "(original_fields ex2 = original_fields ex1 \<and> derived_fields ex2 = derived_fields ex1
      \<longrightarrow> map_sum (\<lambda>e. e) derived_fields (preprocess tok ml ex2)
          = map_sum (\<lambda>e. e) derived_fields (preprocess tok ml ex1))
   \<and> (\<forall>ex'. preprocess tok ml ex1 = Inr ex'
      \<longrightarrow> original_fields ex' = original_fields ex1 \<and> all_answers ex' = all_answers ex1
          \<and> preprocess tok ml ex' = Inr ex')"
proof (intro conjI impI allI)
  assume a: "original_fields ex2 = original_fields ex1 \<and> derived_fields ex2 = derived_fields ex1"
  then have same: "end_char_idx ex2 = end_char_idx ex1" "context_text ex2 = context_text ex1"
      "start_char_idx ex2 = start_char_idx ex1"
      "tokenized_context tok ex2 = tokenized_context tok ex1"
      "unpadded_input_ids tok ex2 = unpadded_input_ids tok ex1"
      "unpadded_token_type_ids tok ex2 = unpadded_token_type_ids tok ex1"
      "unpadded_attention_mask tok ex2 = unpadded_attention_mask tok ex1"
    by (simp_all add: original_fields_def end_char_idx_def tokenized_context_def
          tokenized_question_def unpadded_input_ids_def unpadded_token_type_ids_def
          unpadded_attention_mask_def)
  have d: "derived_fields (ex2\<lparr>skip := True\<rparr>) = derived_fields (ex1\<lparr>skip := True\<rparr>)"
    "derived_fields ex2 = derived_fields ex1"
    "\<And>st en. derived_fields (aligned_example tok ml ex2 st en) = derived_fields (aligned_example tok ml ex1 st en)"
    using a same by (simp_all add: derived_fields_def)
  show "map_sum (\<lambda>e. e) derived_fields (preprocess tok ml ex2)
          = map_sum (\<lambda>e. e) derived_fields (preprocess tok ml ex1)"
    unfolding preprocess_cases same using d
    by (simp split: sum.splits list.splits del: hits.simps)
next
  fix ex' assume r: "preprocess tok ml ex1 = Inr ex'"
  from preprocess_outcomes[OF r]
  show "original_fields ex' = original_fields ex1" by auto
  from preprocess_outcomes[OF r]
  show "all_answers ex' = all_answers ex1" by auto
  show "preprocess tok ml ex' = Inr ex'"
  proof (cases "end_char_idx ex1 \<ge> int (length (clean (context_text ex1)))")
    case True
    then have "ex' = ex1\<lparr>skip := True\<rparr>" using r by (simp add: preprocess_cases)
    then show ?thesis using True by (simp add: preprocess_cases)
  next
    case False
    then obtain marks where
      mk: "mark_chars (replicate (length (clean (context_text ex1))) 0)
             (py_range (start_char_idx ex1) (end_char_idx ex1)) = Inr marks"
      using r by (auto simp: preprocess_cases split: sum.splits)
    show ?thesis
    proof (cases "offsets (tokenized_context tok ex1)")
      case Nil
      then have "ex' = ex1" using r False mk by (simp add: preprocess_cases)
      then show ?thesis using r by simp
    next
      case (Cons span rest)
      show ?thesis
      proof (cases "marked marks span \<and> \<not> ml < int (length (unpadded_input_ids tok ex1))")
        case skipped: False
        then have "ex' = ex1\<lparr>skip := True\<rparr>"
          using r False mk Cons by (simp add: preprocess_cases del: hits.simps split: if_splits)
        then show ?thesis using skipped False mk Cons
          by (simp add: preprocess_cases del: hits.simps)
      next
        case fits: True
        then have "ex' = aligned_example tok ml ex1 0 (last (hits (marked marks) 0 (span # rest)))"
          using r False mk Cons by (simp add: preprocess_cases del: hits.simps)
        then show ?thesis using fits False mk Cons
          by (simp add: preprocess_cases del: hits.simps)
      qed
    qed
  qed
qed

theorem C9_function_of_original_fields_witness:
  "original_fields (SquadExample ''q?'' ''abcd'' 0 ''ab'' [''ab'', ''a b''])
     = original_fields (SquadExample ''q?'' ''abcd'' 0 ''ab'' [''ab''])
   \<and> derived_fields (SquadExample ''q?'' ''abcd'' 0 ''ab'' [''ab'', ''a b''])
     = derived_fields (SquadExample ''q?'' ''abcd'' 0 ''ab'' [''ab''])
   \<and> preprocess tok_chars 10 (SquadExample ''q?'' ''abcd'' 0 ''ab'' [''ab''])
     = Inr ((SquadExample ''q?'' ''abcd'' 0 ''ab'' [''ab''])
              \<lparr>input_ids := Some [97, 98, 99, 100, 63, 0, 0, 0, 0, 0],
               token_type_ids := Some [0, 0, 0, 0, 1, 0, 0, 0, 0, 0],
               attention_mask := Some [1, 1, 1, 1, 1, 0, 0, 0, 0, 0],
               start_token_idx := Some 0, end_token_idx := Some 1,
               context_token_to_char := Some [(0, 1), (1, 2), (2, 3), (3, 4)]\<rparr>)
   \<and> map_sum (\<lambda>e. e) derived_fields
       (preprocess tok_chars 10 (SquadExample ''q?'' ''abcd'' 0 ''ab'' [''ab'', ''a b'']))
     = map_sum (\<lambda>e. e) derived_fields
       (preprocess tok_chars 10 (SquadExample ''q?'' ''abcd'' 0 ''ab'' [''ab'']))
   \<and> preprocess tok_chars 10
       ((SquadExample ''q?'' ''abcd'' 0 ''ab'' [''ab''])
              \<lparr>input_ids := Some [97, 98, 99, 100, 63, 0, 0, 0, 0, 0],
               token_type_ids := Some [0, 0, 0, 0, 1, 0, 0, 0, 0, 0],
               attention_mask := Some [1, 1, 1, 1, 1, 0, 0, 0, 0, 0],
               start_token_idx := Some 0, end_token_idx := Some 1,
               context_token_to_char := Some [(0, 1), (1, 2), (2, 3), (3, 4)]\<rparr>)
     = Inr ((SquadExample ''q?'' ''abcd'' 0 ''ab'' [''ab''])
              \<lparr>input_ids := Some [97, 98, 99, 100, 63, 0, 0, 0, 0, 0],
               token_type_ids := Some [0, 0, 0, 0, 1, 0, 0, 0, 0, 0],
               attention_mask := Some [1, 1, 1, 1, 1, 0, 0, 0, 0, 0],
               start_token_idx := Some 0, end_token_idx := Some 1,
               context_token_to_char := Some [(0, 1), (1, 2), (2, 3), (3, 4)]\<rparr>)"
proof -
  let ?ex1 = "SquadExample ''q?'' ''abcd'' 0 ''ab'' [''ab'']"
  let ?ex2 = "SquadExample ''q?'' ''abcd'' 0 ''ab'' [''ab'', ''a b'']"
  let ?ex' = "?ex1\<lparr>input_ids := Some [97, 98, 99, 100, 63, 0, 0, 0, 0, 0],
               token_type_ids := Some [0, 0, 0, 0, 1, 0, 0, 0, 0, 0],
               attention_mask := Some [1, 1, 1, 1, 1, 0, 0, 0, 0, 0],
               start_token_idx := Some 0, end_token_idx := Some 1,
               context_token_to_char := Some [(0, 1), (1, 2), (2, 3), (3, 4)]\<rparr>"
  have same: "original_fields ?ex2 = original_fields ?ex1 \<and> derived_fields ?ex2 = derived_fields ?ex1"
    by (simp add: original_fields_def derived_fields_def)
  have run: "preprocess tok_chars 10 ?ex1 = Inr ?ex'" by code_simp
  note both = C9_function_of_original_fields[of ?ex2 ?ex1 tok_chars 10]
  from both same have "map_sum (\<lambda>e. e) derived_fields (preprocess tok_chars 10 ?ex2)
     = map_sum (\<lambda>e. e) derived_fields (preprocess tok_chars 10 ?ex1)" by blast
  moreover from both run have "preprocess tok_chars 10 ?ex' = Inr ?ex'" by blast
  ultimately show ?thesis using same run by blast
qed

text \<open>
  \<^bold>\<open>C10\<close>. The claim is that \<open>preprocess\<close> sets \<open>skip\<close> and returns whenever the first token
  of the tokenized context does not overlap \<open>[start_char_idx, end_char_idx)\<close>. The method
  does not reject a negative \<open>start_char_idx\<close>. With the context \<open>abc\<close>, the answer \<open>a\<close>
  and \<open>start_char_idx = -3\<close> the interval is \<open>[-3, -2)\<close>, which the first token
  \<open>(0, 1)\<close> does not overlap; the store \<^verbatim>\<open>is_char_in_ans[-3] = 1\<close> marks the first
  character of the context, the first pass of the loop finds it, and the run comes back
  aligned and not skipped.
\<close>

theorem C10_first_token_outside_answer_aligned:
  "hd (offsets (tokenized_context tok_chars (SquadExample ''q?'' ''abc'' (- 3) ''a'' [''a''])))
     = (0, 1)
   \<and> end_char_idx (SquadExample ''q?'' ''abc'' (- 3) ''a'' [''a'']) = - 2
   \<and> \<not> span_overlaps (0, 1) (- 3) (- 2)
   \<and> preprocess tok_chars 10 (SquadExample ''q?'' ''abc'' (- 3) ''a'' [''a''])
       = Inr ((SquadExample ''q?'' ''abc'' (- 3) ''a'' [''a''])
                \<lparr>input_ids := Some [97, 98, 99, 63, 0, 0, 0, 0, 0, 0],
                 token_type_ids := Some [0, 0, 0, 1, 0, 0, 0, 0, 0, 0],
                 attention_mask := Some [1, 1, 1, 1, 0, 0, 0, 0, 0, 0],
                 start_token_idx := Some 0, end_token_idx := Some 0,
                 context_token_to_char := Some [(0, 1), (1, 2), (2, 3)]\<rparr>)
   \<and> \<not> skip ((SquadExample ''q?'' ''abc'' (- 3) ''a'' [''a''])
                \<lparr>input_ids := Some [97, 98, 99, 63, 0, 0, 0, 0, 0, 0],
                 token_type_ids := Some [0, 0, 0, 1, 0, 0, 0, 0, 0, 0],
                 attention_mask := Some [1, 1, 1, 1, 0, 0, 0, 0, 0, 0],
                 start_token_idx := Some 0, end_token_idx := Some 0,
                 context_token_to_char := Some [(0, 1), (1, 2), (2, 3)]\<rparr>)"
  by code_simp

end
